theory Spec2Isabelle
  imports Complex_Main "HOL-Library.AList"
begin

section \<open>The worker side of pytest-xdist: \<open>src/xdist/remote.py\<close>\<close>

text \<open>
  The module runs in the worker process. \<open>WorkerInteractor\<close> receives commands over an
  execnet channel, keeps the list \<open>torun\<close> of pending item indices, runs items through the
  host hook \<open>pytest_runtest_protocol\<close> and sends events back. The embedding below follows
  the Python text: exceptions are values of \<open>error\<close>, the mutable interactor is a record
  that every method returns updated, the channel's outgoing side is the list \<open>sent\<close>, and
  the two loops of \<open>pytest_runtestloop\<close> are recursive functions.
\<close>

subsection \<open>Python values\<close>

text \<open>
  The values that travel in event payloads and warning attributes. \<open>PObject r\<close> is a live
  object that is none of the primitive kinds; \<open>r\<close> identifies it.
\<close>

datatype pyval =
    PNone
  | PBool bool
  | PInt int
  | PFloat real
  | PStr string
  | PTuple "pyval list"
  | PList "pyval list"
  | PDict "(string \<times> pyval) list"
  | PObject string

text \<open>
  A \<open>dict\<close> with string keys, in insertion order. \<open>d[k] = v\<close> is \<open>AList.update k v d\<close>:
  an existing key keeps its place, a new key goes to the end.
\<close>

type_synonym pydict = "(string \<times> pyval) list"

datatype error = IndexError | KeyError | AssertionError | AttributeError

text \<open>
  \<open>xs[i]\<close> on a Python list: a negative index counts from the end, anything outside
  \<open>-len(xs) \<le> i < len(xs)\<close> raises \<open>IndexError\<close>.
\<close>

definition getitem :: "'a list \<Rightarrow> int \<Rightarrow> error + 'a" where
  "getitem xs i =
     (if 0 \<le> i \<and> i < int (length xs) then Inr (xs ! nat i)
      else if i < 0 \<and> - int (length xs) \<le> i then Inr (xs ! nat (int (length xs) + i))
      else Inl IndexError)"

definition valid_index :: "'a list \<Rightarrow> int \<Rightarrow> bool" where
  "valid_index xs i = (- int (length xs) \<le> i \<and> i < int (length xs))"

subsection \<open>Items, reports, warnings\<close>

record item =
  nodeid :: string

text \<open>Of a report the module reads \<open>nodeid\<close> and \<open>passed\<close> only.\<close>

record report =
  nodeid :: string
  passed :: bool

text \<open>A class object, read through \<open>__module__\<close> and \<open>__name__\<close>.\<close>

datatype pyclass = PyClass (class_module: string) (class_name: string)

text \<open>
  \<open>warning_message.message\<close> is a \<open>Warning\<close> instance (its type, \<open>str()\<close> of it, and its
  \<open>args\<close>) or, as the standard library declares the attribute, a plain \<open>str\<close>.
\<close>

datatype warning_payload =
    WarningInstance pyclass string pyval
  | Text string

text \<open>
  A \<open>warnings.WarningMessage\<close>. \<open>category\<close> is \<open>None\<close> when the attribute is falsy.
  \<open>WARNING_DETAILS\<close> is the class's tuple \<open>_WARNING_DETAILS\<close> of attribute names, which
  varies between Python versions; \<open>getattr\<close> reads an attribute by name (the class
  assigns every attribute it lists in its constructor).
\<close>

record warning_message =
  message :: warning_payload
  category :: "pyclass option"
  WARNING_DETAILS :: "string list"
  getattr :: "string \<Rightarrow> pyval"

subsection \<open>The host and the interactor\<close>

text \<open>
  What the host makes of one \<open>pytest_runtest_protocol\<close> call, seen from this module: the
  hooks of the interactor it calls back, in order.
\<close>

datatype callback =
    LogStart string pyval
  | LogFinish string pyval
  | LogReport report
  | WarningRecorded warning_message pyval string pyval

text \<open>
  The collaborators that are not part of this module, as parameters:
  \<^item> \<open>pytest_runtest_protocol\<close>: the host's run operation. Given the calls made so far, the
    item and the next item, it yields the callbacks it makes and the wall-clock time
    \<open>time.time() - start\<close> that the call took;
  \<^item> \<open>pytest_report_to_serializable\<close>: the host hook that turns a report into a mapping;
  \<^item> \<open>dumps\<close>: execnet's serializer, \<open>None\<close> when it raises \<open>DumpError\<close>;
  \<^item> \<open>repr\<close>: Python's \<open>repr\<close>.
\<close>

record host =
  pytest_runtest_protocol ::
    "(item \<times> item option) list \<Rightarrow> item \<Rightarrow> item option \<Rightarrow> callback list \<times> real"
  pytest_report_to_serializable :: "report \<Rightarrow> pydict"
  dumps :: "pyval \<Rightarrow> string option"
  repr :: "pyval \<Rightarrow> string"

type_synonym event = "string \<times> pydict"

text \<open>
  The interactor. \<open>items\<close> is \<open>self.session.items\<close>; \<open>item_index\<close> is \<open>None\<close> until
  \<open>run_one_test\<close> first assigns the attribute; \<open>sent\<close> is what \<open>channel.send\<close> has been
  given, oldest first; \<open>hostcalls\<close> is the arguments of the \<open>pytest_runtest_protocol\<close>
  calls made, oldest first.
\<close>

record worker =
  items :: "item list"
  workerid :: string
  testrunuid :: string
  item_index :: "int option"
  sent :: "event list"
  hostcalls :: "(item \<times> item option) list"

text \<open>
  \<open>sendevent\<close> hands the pair of name and keyword arguments to \<open>channel.send\<close>, which
  is taken to accept it.
\<close>

definition sendevent :: "worker \<Rightarrow> string \<Rightarrow> pydict \<Rightarrow> worker" where
  "sendevent w name kwargs = w\<lparr>sent := sent w @ [(name, kwargs)]\<rparr>"

subsection \<open>Warning conversion\<close>

text \<open>One round of the loop over \<open>_WARNING_DETAILS\<close>.\<close>

definition serialize_detail :: "host \<Rightarrow> warning_message \<Rightarrow> string \<Rightarrow> pydict \<Rightarrow> pydict" where
  "serialize_detail h wm attr_name result =
     (if attr_name \<in> {''message'', ''category''} then result
      else
        let attr = getattr wm attr_name in
        (case dumps h attr of
           None \<Rightarrow> AList.update attr_name (PStr (repr h attr)) result
         | Some _ \<Rightarrow> AList.update attr_name attr result))"

definition serialize_warning_message :: "host \<Rightarrow> warning_message \<Rightarrow> pydict" where
  "serialize_warning_message h wm =
     (let (message_module, message_class_name, message_str, message_args) =
            (case message wm of
               WarningInstance cls s args \<Rightarrow>
                 (PStr (class_module cls), PStr (class_name cls), PStr s,
                  (case dumps h args of None \<Rightarrow> PNone | Some _ \<Rightarrow> args))
             | Text s \<Rightarrow> (PNone, PNone, PStr s, PNone));
          (category_module, category_class_name) =
            (case category wm of
               Some c \<Rightarrow> (PStr (class_module c), PStr (class_name c))
             | None \<Rightarrow> (PNone, PNone));
          result =
            [(''message_str'', message_str),
             (''message_module'', message_module),
             (''message_class_name'', message_class_name),
             (''message_args'', message_args),
             (''category_module'', category_module),
             (''category_class_name'', category_class_name)]
      in fold (serialize_detail h wm) (WARNING_DETAILS wm) result)"

subsection \<open>The hooks that send events\<close>

definition pytest_runtest_logstart :: "worker \<Rightarrow> string \<Rightarrow> pyval \<Rightarrow> worker" where
  "pytest_runtest_logstart w nid location =
     sendevent w ''logstart'' [(''nodeid'', PStr nid), (''location'', location)]"

definition pytest_runtest_logfinish :: "worker \<Rightarrow> string \<Rightarrow> pyval \<Rightarrow> worker" where
  "pytest_runtest_logfinish w nid location =
     sendevent w ''logfinish'' [(''nodeid'', PStr nid), (''location'', location)]"

text \<open>
  \<open>pytest_runtest_logreport\<close>: reading \<open>self.item_index\<close> before it was ever assigned
  raises \<open>AttributeError\<close>; the \<open>assert\<close> comes after the three fields are stored and
  before the event is sent.
\<close>

definition pytest_runtest_logreport :: "host \<Rightarrow> worker \<Rightarrow> report \<Rightarrow> error + worker" where
  "pytest_runtest_logreport h w rep =
     (let data = pytest_report_to_serializable h rep in
      (case item_index w of
         None \<Rightarrow> Inl AttributeError
       | Some i \<Rightarrow>
           let data = AList.update ''item_index'' (PInt i) data;
               data = AList.update ''worker_id'' (PStr (workerid w)) data;
               data = AList.update ''testrun_uid'' (PStr (testrunuid w)) data
           in (case getitem (items w) i of
                 Inl e \<Rightarrow> Inl e
               | Inr it \<Rightarrow>
                   if item.nodeid it = report.nodeid rep
                   then Inr (sendevent w ''testreport'' [(''data'', PDict data)])
                   else Inl AssertionError)))"

definition pytest_collectreport :: "host \<Rightarrow> worker \<Rightarrow> report \<Rightarrow> worker" where
  "pytest_collectreport h w rep =
     (if \<not> passed rep
      then let data = pytest_report_to_serializable h rep
           in sendevent w ''collectreport'' [(''data'', PDict data)]
      else w)"

definition pytest_warning_recorded ::
  "host \<Rightarrow> worker \<Rightarrow> warning_message \<Rightarrow> pyval \<Rightarrow> string \<Rightarrow> pyval \<Rightarrow> worker" where
  "pytest_warning_recorded h w wm when nid location =
     sendevent w ''warning_recorded''
       [(''warning_message_data'', PDict (serialize_warning_message h wm)),
        (''when'', when), (''nodeid'', PStr nid), (''location'', location)]"

subsection \<open>Running one item\<close>

fun dispatch :: "host \<Rightarrow> worker \<Rightarrow> callback \<Rightarrow> error + worker" where
  "dispatch h w (LogStart nid location) = Inr (pytest_runtest_logstart w nid location)"
| "dispatch h w (LogFinish nid location) = Inr (pytest_runtest_logfinish w nid location)"
| "dispatch h w (LogReport rep) = pytest_runtest_logreport h w rep"
| "dispatch h w (WarningRecorded wm when nid location) =
     Inr (pytest_warning_recorded h w wm when nid location)"

text \<open>The host's callbacks in order; an exception in one ends the hook call.\<close>

fun dispatch_all :: "host \<Rightarrow> worker \<Rightarrow> callback list \<Rightarrow> error + worker" where
  "dispatch_all h w [] = Inr w"
| "dispatch_all h w (c # cs) =
     (case dispatch h w c of Inl e \<Rightarrow> Inl e | Inr w' \<Rightarrow> dispatch_all h w' cs)"

text \<open>
  \<open>run_one_test\<close> returns the interactor and the list \<open>torun\<close> after the pop.
  \<open>torun.pop(0)\<close> on an empty list raises \<open>IndexError\<close>, as do both reads of \<open>items\<close>.
  The two \<open>worker_title\<close> calls only rename the process and swallow every exception;
  they are left out, as is the diagnostic \<open>self.log\<close> everywhere.
\<close>

definition run_one_test :: "host \<Rightarrow> worker \<Rightarrow> int list \<Rightarrow> error + (worker \<times> int list)" where
  "run_one_test h w torun =
     (case torun of
        [] \<Rightarrow> Inl IndexError
      | i # torun \<Rightarrow>
          let w = w\<lparr>item_index := Some i\<rparr> in
          (case getitem (items w) i of
             Inl e \<Rightarrow> Inl e
           | Inr it \<Rightarrow>
               (case (if torun \<noteq> []
                      then (case getitem (items w) (hd torun) of
                              Inl e \<Rightarrow> Inl e
                            | Inr nx \<Rightarrow> Inr (Some nx))
                      else Inr None) of
                  Inl e \<Rightarrow> Inl e
                | Inr nextitem \<Rightarrow>
                    let (callbacks, duration) =
                          pytest_runtest_protocol h (hostcalls w) it nextitem;
                        w = w\<lparr>hostcalls := hostcalls w @ [(it, nextitem)]\<rparr>
                    in (case dispatch_all h w callbacks of
                          Inl e \<Rightarrow> Inl e
                        | Inr w \<Rightarrow>
                            (case item_index w of
                               None \<Rightarrow> Inl AttributeError
                             | Some k \<Rightarrow>
                                 Inr (sendevent w ''runtest_protocol_complete''
                                        [(''item_index'', PInt k),
                                         (''duration'', PFloat duration)],
                                      torun))))))"

subsection \<open>The run loop\<close>

text \<open>The inner loop \<open>while len(torun) >= 2: self.run_one_test(torun)\<close>.\<close>

function run_while :: "host \<Rightarrow> worker \<Rightarrow> int list \<Rightarrow> error + (worker \<times> int list)" where
  "run_while h w torun =
     (if length torun \<ge> 2
      then (case run_one_test h w torun of
              Inl e \<Rightarrow> Inl e
            | Inr (w', torun') \<Rightarrow> run_while h w' torun')
      else Inr (w, torun))"
  by pat_completeness auto
termination
  by (relation "measure (\<lambda>(h, w, torun). length torun)")
     (auto simp: run_one_test_def Let_def
           split: list.splits sum.splits if_splits prod.splits option.splits)

declare run_while.simps [simp del]

text \<open>
  A command is a name and its keyword arguments; the loop reads \<open>kwargs["indices"]\<close>
  only, a list of indices. \<open>channel.receive()\<close> yields a command or raises \<open>EOFError\<close>.
\<close>

type_synonym kwargs = "(string \<times> int list) list"

datatype received = Command string kwargs | EOFError

text \<open>
  The body of \<open>while 1:\<close> after a command was received, in two parts: \<open>enqueue\<close> is
  the \<open>if name == "runtests": ... elif name == "runtests_all": ...\<close> that extends
  \<open>torun\<close> (a \<open>runtests\<close> command without the key \<open>indices\<close> raises \<open>KeyError\<close>), and
  \<open>process_command\<close> is the whole body. Its flag is \<open>True\<close> when the body ends in
  \<open>break\<close>.
\<close>

definition enqueue :: "worker \<Rightarrow> int list \<Rightarrow> string \<Rightarrow> kwargs \<Rightarrow> error + int list" where
  "enqueue w torun name kwargs =
     (if name = ''runtests''
      then (case map_of kwargs ''indices'' of
              None \<Rightarrow> Inl KeyError
            | Some indices \<Rightarrow> Inr (torun @ indices))
      else if name = ''runtests_all''
      then Inr (torun @ map int [0..<length (items w)])
      else Inr torun)"

definition process_command ::
  "host \<Rightarrow> worker \<Rightarrow> int list \<Rightarrow> string \<Rightarrow> kwargs \<Rightarrow> error + (bool \<times> worker \<times> int list)" where
  "process_command h w torun name kwargs =
     (case enqueue w torun name kwargs of
        Inl e \<Rightarrow> Inl e
      | Inr torun \<Rightarrow>
          (case run_while h w torun of
             Inl e \<Rightarrow> Inl e
           | Inr (w, torun) \<Rightarrow>
               if name = ''shutdown''
               then (if torun \<noteq> []
                     then (case run_one_test h w torun of
                             Inl e \<Rightarrow> Inl e
                           | Inr (w, torun) \<Rightarrow> Inr (True, w, torun))
                     else Inr (True, w, torun))
               else Inr (False, w, torun)))"

text \<open>
  How the loop ends on a given run of \<open>channel.receive()\<close> results: \<open>Returned v\<close> when
  the method returns \<open>v\<close>, \<open>Blocked\<close> when every result was consumed and the method
  waits in \<open>channel.receive()\<close> for the next one.
\<close>

datatype outcome = Returned bool | Blocked

fun runtestloop_from ::
  "host \<Rightarrow> worker \<Rightarrow> int list \<Rightarrow> received list \<Rightarrow> error + (outcome \<times> worker \<times> int list)" where
  "runtestloop_from h w torun [] = Inr (Blocked, w, torun)"
| "runtestloop_from h w torun (EOFError # rest) = Inr (Returned True, w, torun)"
| "runtestloop_from h w torun (Command name kwargs # rest) =
     (case process_command h w torun name kwargs of
        Inl e \<Rightarrow> Inl e
      | Inr (break, w, torun) \<Rightarrow>
          if break then Inr (Returned True, w, torun)
          else runtestloop_from h w torun rest)"

text \<open>\<open>pytest_runtestloop\<close> starts with \<open>torun = []\<close>.\<close>

definition pytest_runtestloop ::
  "host \<Rightarrow> worker \<Rightarrow> received list \<Rightarrow> error + (outcome \<times> worker \<times> int list)" where
  "pytest_runtestloop h w incoming = runtestloop_from h w [] incoming"

subsection \<open>Observations used in the statements\<close>

text \<open>
  The indices drained, oldest first: the \<open>item_index\<close> fields of the
  \<open>runtest_protocol_complete\<close> events, of which \<open>run_one_test\<close> sends one per item.
\<close>

fun completed :: "event list \<Rightarrow> int list" where
  "completed [] = []"
| "completed ((name, kwargs) # es) =
     (if name = ''runtest_protocol_complete''
      then (case map_of kwargs ''item_index'' of
              Some (PInt i) \<Rightarrow> i # completed es
            | _ \<Rightarrow> completed es)
      else completed es)"

text \<open>The indices that a command appends to \<open>torun\<close>.\<close>

definition queued_by :: "item list \<Rightarrow> string \<times> kwargs \<Rightarrow> int list" where
  "queued_by its c =
     (if fst c = ''runtests''
      then (case map_of (snd c) ''indices'' of None \<Rightarrow> [] | Some indices \<Rightarrow> indices)
      else if fst c = ''runtests_all'' then map int [0..<length its]
      else [])"

text \<open>
  A \<open>runtests\<close> command that carries indices of the plan, or a \<open>runtests_all\<close> command.
\<close>

definition run_command :: "item list \<Rightarrow> string \<times> kwargs \<Rightarrow> bool" where
  "run_command its c =
     (if fst c = ''runtests''
      then (case map_of (snd c) ''indices'' of
              None \<Rightarrow> False
            | Some indices \<Rightarrow> list_all (valid_index its) indices)
      else fst c = ''runtests_all'')"

text \<open>
  A host that, while it runs an item, reports on that item only: every report it hands
  to \<open>pytest_runtest_logreport\<close> carries the item's \<open>nodeid\<close>.
\<close>

definition reports_own_item :: "host \<Rightarrow> bool" where
  "reports_own_item h =
     (\<forall>calls it nx. \<forall>c \<in> set (fst (pytest_runtest_protocol h calls it nx)).
        \<forall>rep. c = LogReport rep \<longrightarrow> report.nodeid rep = item.nodeid it)"

text \<open>The events sent and the host calls made between two states of the interactor.\<close>

definition new_events :: "worker \<Rightarrow> worker \<Rightarrow> event list" where
  "new_events w w' = drop (length (sent w)) (sent w')"

definition new_calls :: "worker \<Rightarrow> worker \<Rightarrow> (item \<times> item option) list" where
  "new_calls w w' = drop (length (hostcalls w)) (hostcalls w')"

text \<open>The next item that \<open>run_one_test\<close> computes for a list \<open>torun\<close> after the pop.\<close>

definition lookahead :: "item list \<Rightarrow> int list \<Rightarrow> error + item option" where
  "lookahead its rest =
     (if rest \<noteq> [] then (case getitem its (hd rest) of Inl e \<Rightarrow> Inl e | Inr nx \<Rightarrow> Inr (Some nx))
      else Inr None)"

text \<open>The names of the events that the hooks called back by the host send.\<close>

definition callback_events :: "event list \<Rightarrow> bool" where
  "callback_events es =
     list_all (\<lambda>e. fst e \<in> {''logstart'', ''logfinish'', ''testreport'', ''warning_recorded''}) es"

text \<open>The names of the events that are sent while the run loop is active.\<close>

definition run_events :: "event list \<Rightarrow> bool" where
  "run_events es =
     list_all (\<lambda>e. fst e \<in> {''logstart'', ''logfinish'', ''testreport'', ''warning_recorded'',
                            ''runtest_protocol_complete''}) es"

text \<open>
  The later state of the interactor keeps the plan and the identity of the earlier one,
  and only adds to what was sent and to the host calls.
\<close>

definition extends :: "worker \<Rightarrow> worker \<Rightarrow> bool" where
  "extends w w' =
     (items w' = items w \<and> workerid w' = workerid w \<and> testrunuid w' = testrunuid w
      \<and> sent w' = sent w @ new_events w w' \<and> hostcalls w' = hostcalls w @ new_calls w w')"

text \<open>
  The value stored for an attribute of \<open>_WARNING_DETAILS\<close>: the attribute when \<open>dumps\<close>
  accepts it, its \<open>repr\<close> otherwise.
\<close>

definition detail_value :: "host \<Rightarrow> warning_message \<Rightarrow> string \<Rightarrow> pyval" where
  "detail_value h wm attr_name =
     (let attr = getattr wm attr_name in
      case dumps h attr of None \<Rightarrow> PStr (repr h attr) | Some _ \<Rightarrow> attr)"

text \<open>The text of a warning: \<open>str(message)\<close> of a \<open>Warning\<close>, the string itself otherwise.\<close>

definition message_text :: "warning_payload \<Rightarrow> string" where
  "message_text m = (case m of WarningInstance cls s args \<Rightarrow> s | Text s \<Rightarrow> s)"

text \<open>The six keys of the literal \<open>result = {...}\<close>.\<close>

definition fixed_keys :: "string set" where
  "fixed_keys = {''message_str'', ''message_module'', ''message_class_name'', ''message_args'',
                 ''category_module'', ''category_class_name''}"

text \<open>The attribute names that the loop over \<open>_WARNING_DETAILS\<close> does not skip.\<close>

definition detail_keys :: "warning_message \<Rightarrow> string set" where
  "detail_keys wm = set (WARNING_DETAILS wm) - {''message'', ''category''}"

text \<open>A command, as \<open>channel.receive()\<close> returns it.\<close>

definition to_received :: "string \<times> kwargs \<Rightarrow> received" where
  "to_received c = Command (fst c) (snd c)"

text \<open>
  Every \<open>testreport\<close> event of a list carries, in its \<open>data\<close>, the field \<open>item_index\<close>
  with the value \<open>i\<close>.
\<close>

definition reports_for :: "int \<Rightarrow> event list \<Rightarrow> bool" where
  "reports_for i es =
     list_all (\<lambda>e. fst e = ''testreport'' \<longrightarrow>
        (case snd e of
           [(k, PDict data)] \<Rightarrow> k = ''data'' \<and> map_of data ''item_index'' = Some (PInt i)
         | _ \<Rightarrow> False)) es"

subsection \<open>A concrete session\<close>

text \<open>
  A serializer that refuses live objects, also inside tuples, lists and mappings, as
  execnet's does.
\<close>

fun encodable :: "pyval \<Rightarrow> bool" where
  "encodable (PObject r) = False"
| "encodable (PTuple vs) = list_all encodable vs"
| "encodable (PList vs) = list_all encodable vs"
| "encodable (PDict kvs) = list_all (\<lambda>kv. encodable (snd kv)) kvs"
| "encodable v = True"

text \<open>
  A host that reports once on the item it runs, in one millisecond, and a worker
  \<open>gw0\<close> with a plan of three items.
\<close>

definition example_host :: host where
  "example_host =
     \<lparr>pytest_runtest_protocol =
        (\<lambda>calls it nx. ([LogReport \<lparr>report.nodeid = item.nodeid it, passed = True\<rparr>], 1 / 1000)),
      pytest_report_to_serializable =
        (\<lambda>rep. [(''nodeid'', PStr (report.nodeid rep)), (''passed'', PBool (passed rep))]),
      dumps = (\<lambda>v. if encodable v then Some ''bytes'' else None),
      repr = (\<lambda>v. case v of PObject r \<Rightarrow> r | _ \<Rightarrow> ''...'')\<rparr>"

definition example_worker :: worker where
  "example_worker =
     \<lparr>items = [\<lparr>item.nodeid = ''test_a''\<rparr>, \<lparr>item.nodeid = ''test_b''\<rparr>,
               \<lparr>item.nodeid = ''test_c''\<rparr>],
      workerid = ''gw0'', testrunuid = ''run1'', item_index = None, sent = [],
      hostcalls = []\<rparr>"

text \<open>
  A warning whose argument tuple and whose \<open>source\<close> attribute hold a live object.
\<close>

definition example_warning :: warning_message where
  "example_warning =
     \<lparr>message = WarningInstance (PyClass ''builtins'' ''UserWarning'') ''careful''
                  (PTuple [PObject ''<lock>'']),
      category = Some (PyClass ''builtins'' ''UserWarning''),
      WARNING_DETAILS = [''message'', ''category'', ''filename'', ''lineno'', ''file'',
                         ''line'', ''source''],
      getattr = (\<lambda>a. if a = ''filename'' then PStr ''test_a.py''
                     else if a = ''lineno'' then PInt 3
                     else if a = ''source'' then PObject ''<lock>''
                     else PNone)\<rparr>"

section \<open>Properties\<close>

subsection \<open>Indexing, events, callbacks\<close>

lemma getitem_valid: "valid_index xs i \<Longrightarrow> \<exists>x. getitem xs i = Inr x"
  by (simp add: getitem_def valid_index_def Let_def)

lemma getitem_Inr_valid: "getitem xs i = Inr x \<Longrightarrow> valid_index xs i"
  by (auto simp: getitem_def valid_index_def Let_def split: if_splits)

lemma completed_append: "completed (es @ fs) = completed es @ completed fs"
  by (induction es rule: completed.induct) (auto split: option.splits pyval.splits)

lemma sendevent_fields:
  "items (sendevent w n k) = items w"
  "item_index (sendevent w n k) = item_index w"
  "hostcalls (sendevent w n k) = hostcalls w"
  "workerid (sendevent w n k) = workerid w"
  "testrunuid (sendevent w n k) = testrunuid w"
  "sent (sendevent w n k) = sent w @ [(n, k)]"
  by (simp_all add: sendevent_def)

lemma dispatch_frame:
  assumes "dispatch h w c = Inr w'"
  shows "items w' = items w \<and> item_index w' = item_index w \<and> hostcalls w' = hostcalls w
       \<and> workerid w' = workerid w \<and> testrunuid w' = testrunuid w
       \<and> (\<exists>e. sent w' = sent w @ [e] \<and> callback_events [e])"
  using assms
  by (cases c)
     (auto simp: sendevent_fields pytest_runtest_logstart_def pytest_runtest_logfinish_def
        pytest_runtest_logreport_def pytest_warning_recorded_def Let_def callback_events_def
        split: option.splits sum.splits if_splits)

lemma dispatch_all_frame:
  "dispatch_all h w cs = Inr w' \<Longrightarrow>
   items w' = items w \<and> item_index w' = item_index w \<and> hostcalls w' = hostcalls w
       \<and> workerid w' = workerid w \<and> testrunuid w' = testrunuid w
       \<and> (\<exists>es. sent w' = sent w @ es \<and> callback_events es)"
proof (induction cs arbitrary: w)
  case Nil
  then show ?case by (simp add: callback_events_def)
next
  case (Cons c cs)
  from Cons.prems obtain w1 where d: "dispatch h w c = Inr w1" and r: "dispatch_all h w1 cs = Inr w'"
    by (auto split: sum.splits)
  from dispatch_frame[OF d] Cons.IH[OF r] show ?case
    by (auto simp: callback_events_def)
qed


lemma dispatch_ok:
  assumes "item_index w = Some i" "getitem (items w) i = Inr it"
    "\<forall>rep. c = LogReport rep \<longrightarrow> report.nodeid rep = item.nodeid it"
  shows "\<exists>w'. dispatch h w c = Inr w'"
  using assms by (cases c) (auto simp: pytest_runtest_logreport_def Let_def)

lemma dispatch_all_ok:
  assumes "item_index w = Some i" "getitem (items w) i = Inr it"
    "\<forall>c \<in> set cs. \<forall>rep. c = LogReport rep \<longrightarrow> report.nodeid rep = item.nodeid it"
  shows "\<exists>w'. dispatch_all h w cs = Inr w'"
  using assms
proof (induction cs arbitrary: w)
  case Nil
  then show ?case by simp
next
  case (Cons c cs)
  from dispatch_ok[OF Cons.prems(1,2), of c h] Cons.prems(3)
  obtain w1 where d: "dispatch h w c = Inr w1" by auto
  from dispatch_frame[OF d] Cons.prems
  have "item_index w1 = Some i" "getitem (items w1) i = Inr it" by auto
  from Cons.IH[OF this] Cons.prems(3) d show ?case by auto
qed

lemma run_one_test_Inr:
  assumes "run_one_test h w torun = Inr (w', torun')"
  shows "\<exists>i it nx es d. torun = i # torun' \<and> getitem (items w) i = Inr it
      \<and> lookahead (items w) torun' = Inr nx
      \<and> items w' = items w \<and> item_index w' = Some i
      \<and> workerid w' = workerid w \<and> testrunuid w' = testrunuid w
      \<and> hostcalls w' = hostcalls w @ [(it, nx)]
      \<and> sent w' = sent w @ es @ [(''runtest_protocol_complete'', [(''item_index'', PInt i), (''duration'', PFloat d)])]
      \<and> callback_events es"
proof -
  from assms obtain i where t: "torun = i # torun'"
    by (auto simp: run_one_test_def Let_def split: list.splits sum.splits prod.splits option.splits if_splits)
  let ?w1 = "w\<lparr>item_index := Some i\<rparr>"
  from assms t obtain it where it: "getitem (items w) i = Inr it"
    by (auto simp: run_one_test_def Let_def split: list.splits sum.splits prod.splits option.splits if_splits)
  from assms t it obtain nx where nx: "lookahead (items w) torun' = Inr nx"
    by (auto simp: run_one_test_def lookahead_def Let_def split: list.splits sum.splits prod.splits option.splits if_splits)
  obtain cbs d where p: "pytest_runtest_protocol h (hostcalls w) it nx = (cbs, d)"
    by (cases "pytest_runtest_protocol h (hostcalls w) it nx")
  let ?w2 = "?w1\<lparr>hostcalls := hostcalls w @ [(it, nx)]\<rparr>"
  from assms t it nx p obtain w3 where d3: "dispatch_all h ?w2 cbs = Inr w3"
    and w': "w' = sendevent w3 ''runtest_protocol_complete'' [(''item_index'', PInt i), (''duration'', PFloat d)]"
    apply (simp add: run_one_test_def lookahead_def Let_def split: sum.splits if_splits)
    by (auto dest!: dispatch_all_frame split: option.splits)
  from dispatch_all_frame[OF d3] obtain es where
    "items w3 = items w" "item_index w3 = Some i" "hostcalls w3 = hostcalls w @ [(it, nx)]"
    "workerid w3 = workerid w" "testrunuid w3 = testrunuid w" "sent w3 = sent w @ es" "callback_events es"
    by auto
  with t it nx w' show ?thesis by (auto simp: sendevent_fields)
qed

lemma run_one_test_ok:
  assumes "reports_own_item h" "valid_index (items w) i"
    "rest \<noteq> [] \<longrightarrow> valid_index (items w) (hd rest)"
  shows "\<exists>w'. run_one_test h w (i # rest) = Inr (w', rest)"
proof -
  from getitem_valid[OF assms(2)] obtain it where it: "getitem (items w) i = Inr it" by auto
  from assms(3) obtain nx where nx: "lookahead (items w) rest = Inr nx"
    by (cases "rest = []") (auto simp: lookahead_def dest: getitem_valid)
  obtain cbs d where p: "pytest_runtest_protocol h (hostcalls w) it nx = (cbs, d)"
    by (cases "pytest_runtest_protocol h (hostcalls w) it nx")
  let ?w2 = "w\<lparr>item_index := Some i, hostcalls := hostcalls w @ [(it, nx)]\<rparr>"
  from assms(1) p have own: "\<forall>c \<in> set cbs. \<forall>rep. c = LogReport rep \<longrightarrow> report.nodeid rep = item.nodeid it"
    unfolding reports_own_item_def by (metis fst_conv)
  have "item_index ?w2 = Some i" "getitem (items ?w2) i = Inr it" using it by auto
  from dispatch_all_ok[OF this own, of h] obtain w3 where d3: "dispatch_all h ?w2 cbs = Inr w3" by auto
  from dispatch_all_frame[OF d3] have "item_index w3 = Some i" by simp
  with it nx p d3 show ?thesis
    by (auto simp: run_one_test_def lookahead_def Let_def split: if_splits sum.splits)
qed

lemma extends_refl: "extends w w" "new_events w w = []" "new_calls w w = []"
  by (simp_all add: extends_def new_events_def new_calls_def)

lemma extends_trans:
  assumes "extends w w1" "extends w1 w2"
  shows "extends w w2" "new_events w w2 = new_events w w1 @ new_events w1 w2"
    "new_calls w w2 = new_calls w w1 @ new_calls w1 w2"
proof -
  from assms have s: "sent w2 = sent w @ new_events w w1 @ new_events w1 w2"
    and c: "hostcalls w2 = hostcalls w @ new_calls w w1 @ new_calls w1 w2"
    by (simp_all add: extends_def)
  from s show e: "new_events w w2 = new_events w w1 @ new_events w1 w2"
    by (simp add: new_events_def[of w w2])
  from c show n: "new_calls w w2 = new_calls w w1 @ new_calls w1 w2"
    by (simp add: new_calls_def[of w w2])
  from assms s c e n show "extends w w2" by (simp add: extends_def)
qed

lemma extendsI:
  assumes "items w' = items w" "workerid w' = workerid w" "testrunuid w' = testrunuid w"
    "sent w' = sent w @ es" "hostcalls w' = hostcalls w @ cs"
  shows "extends w w'" "new_events w w' = es" "new_calls w w' = cs"
  using assms by (simp_all add: extends_def new_events_def new_calls_def)

lemma callback_events_completed: "callback_events es \<Longrightarrow> completed es = []"
  by (induction es rule: completed.induct) (auto simp: callback_events_def)

lemma callback_events_run_events: "callback_events es \<Longrightarrow> run_events es"
  by (auto simp: callback_events_def run_events_def list_all_iff)

lemma run_events_append: "run_events (es @ fs) = (run_events es \<and> run_events fs)"
  by (simp add: run_events_def)

lemma lookahead_None: "lookahead its rest = Inr nx \<Longrightarrow> (nx = None) = (rest = [])"
  by (auto simp: lookahead_def split: if_splits sum.splits)

lemma run_one_test_step:
  assumes "run_one_test h w torun = Inr (w', torun')"
  shows "\<exists>i it nx. torun = i # torun' \<and> getitem (items w) i = Inr it
      \<and> lookahead (items w) torun' = Inr nx
      \<and> extends w w' \<and> item_index w' = Some i
      \<and> new_calls w w' = [(it, nx)]
      \<and> completed (new_events w w') = [i]
      \<and> run_events (new_events w w')"
proof -
  from run_one_test_Inr[OF assms] obtain i it nx es d where
    f: "torun = i # torun'" "getitem (items w) i = Inr it" "lookahead (items w) torun' = Inr nx"
      "item_index w' = Some i" and
    g: "items w' = items w" "workerid w' = workerid w" "testrunuid w' = testrunuid w"
      "sent w' = sent w @ (es @ [(''runtest_protocol_complete'', [(''item_index'', PInt i), (''duration'', PFloat d)])])"
      "hostcalls w' = hostcalls w @ [(it, nx)]" and
    cb: "callback_events es"
    by auto
  from extendsI[OF g] f cb show ?thesis
    by (auto simp: completed_append callback_events_completed run_events_append
          callback_events_run_events) (simp add: run_events_def)
qed

subsection \<open>The inner loop\<close>

lemma run_while_Inr:
  "run_while h w torun = Inr (w', torun') \<Longrightarrow>
     extends w w' \<and> torun' = drop (length torun - 1) torun
     \<and> completed (new_events w w') = take (length torun - 1) torun
     \<and> list_all (\<lambda>c. snd c \<noteq> None) (new_calls w w')
     \<and> length (new_calls w w') = length torun - 1
     \<and> run_events (new_events w w')"
proof (induction h w torun rule: run_while.induct)
  case (1 h w torun)
  show ?case
  proof (cases "2 \<le> length torun")
    case False
    have "run_while h w torun = Inr (w, torun)"
      using False by (subst run_while.simps) simp
    with "1.prems" have eq: "w' = w" "torun' = torun" by simp_all
    from False have "length torun - 1 = 0" by arith
    then show ?thesis using eq by (simp add: extends_refl run_events_def)
  next
    case True
    have unf: "run_while h w torun =
        (case run_one_test h w torun of Inl e \<Rightarrow> Inl e | Inr (w1, t1) \<Rightarrow> run_while h w1 t1)"
      using True by (subst run_while.simps) simp
    with "1.prems" obtain w1 t1 where r: "run_one_test h w torun = Inr (w1, t1)"
      and rw: "run_while h w1 t1 = Inr (w', torun')"
      by (cases "run_one_test h w torun") auto
    from run_one_test_step[OF r] obtain i it nx where
      s: "torun = i # t1" "lookahead (items w) t1 = Inr nx" "extends w w1"
         "new_calls w w1 = [(it, nx)]" "completed (new_events w w1) = [i]"
         "run_events (new_events w w1)"
      by auto
    from "1.IH"[OF True r refl rw] have
      ih: "extends w1 w'" "torun' = drop (length t1 - 1) t1"
        "completed (new_events w1 w') = take (length t1 - 1) t1"
        "list_all (\<lambda>c. snd c \<noteq> None) (new_calls w1 w')"
        "length (new_calls w1 w') = length t1 - 1"
        "run_events (new_events w1 w')"
      by auto
    from True s(1) obtain j rest where t1: "t1 = j # rest" by (cases t1) auto
    with lookahead_None[OF s(2)] have nx: "nx \<noteq> None" by simp
    note tr = extends_trans[OF s(3) ih(1)]
    have "torun' = drop (length torun - 1) torun" using ih(2) s(1) t1 by simp
    moreover have "completed (new_events w w') = take (length torun - 1) torun"
      using tr(2) s(5) ih(3) s(1) t1 by (simp add: completed_append)
    moreover have "list_all (\<lambda>c. snd c \<noteq> None) (new_calls w w')"
      using tr(3) s(4) ih(4) nx by simp
    moreover have "length (new_calls w w') = length torun - 1"
      using tr(3) s(4) ih(5) s(1) t1 by simp
    moreover have "run_events (new_events w w')"
      using tr(2) s(6) ih(6) by (simp add: run_events_append)
    ultimately show ?thesis using tr(1) by simp
  qed
qed

lemma run_while_ok:
  "reports_own_item h \<Longrightarrow> list_all (valid_index (items w)) torun \<Longrightarrow>
     \<exists>w'. run_while h w torun = Inr (w', drop (length torun - 1) torun)"
proof (induction h w torun rule: run_while.induct)
  case (1 h w torun)
  show ?case
  proof (cases "2 \<le> length torun")
    case False
    have "run_while h w torun = Inr (w, torun)"
      using False by (subst run_while.simps) simp
    moreover from False have "length torun - 1 = 0" by arith
    ultimately show ?thesis by simp
  next
    case True
    then obtain i j rest where t: "torun = i # j # rest"
      by (cases torun; cases "tl torun") auto
    with "1.prems" run_one_test_ok[of h w i "j # rest"]
    obtain w1 where r: "run_one_test h w torun = Inr (w1, j # rest)" by auto
    from run_one_test_step[OF r] have "items w1 = items w" by (auto simp: extends_def)
    with "1.prems" t have "list_all (valid_index (items w1)) (j # rest)" by simp
    from "1.IH"[OF True r refl "1.prems"(1) this] obtain w' where
      "run_while h w1 (j # rest) = Inr (w', drop (length (j # rest) - 1) (j # rest))" by auto
    moreover have "run_while h w torun = run_while h w1 (j # rest)"
      using True r by (subst run_while.simps) simp
    ultimately show ?thesis using t by simp
  qed
qed

subsection \<open>Warning conversion and collection reports\<close>

lemma serialize_detail_lookup:
  "map_of (serialize_detail h wm a r) k =
     (if k = a \<and> a \<notin> {''message'', ''category''} then Some (detail_value h wm a) else map_of r k)"
  by (auto simp: serialize_detail_def detail_value_def Let_def update_conv' split: option.splits)

lemma fold_serialize_detail_lookup:
  "map_of (fold (serialize_detail h wm) ds r) k =
     (if k \<in> set ds - {''message'', ''category''} then Some (detail_value h wm k) else map_of r k)"
proof (induction ds arbitrary: r)
  case Nil
  then show ?case by simp
next
  case (Cons a ds)
  show ?case
    by (simp only: fold_simps Cons.IH serialize_detail_lookup) auto
qed

lemma serialize_warning_message_lookup:
  "map_of (serialize_warning_message h wm) k =
     (if k \<in> detail_keys wm then Some (detail_value h wm k)
      else map_of
        [(''message_str'', PStr (message_text (message wm))),
         (''message_module'', case message wm of WarningInstance cls s args \<Rightarrow> PStr (class_module cls) | Text s \<Rightarrow> PNone),
         (''message_class_name'', case message wm of WarningInstance cls s args \<Rightarrow> PStr (class_name cls) | Text s \<Rightarrow> PNone),
         (''message_args'', case message wm of
              WarningInstance cls s args \<Rightarrow> (case dumps h args of None \<Rightarrow> PNone | Some x \<Rightarrow> args)
            | Text s \<Rightarrow> PNone),
         (''category_module'', case category wm of Some c \<Rightarrow> PStr (class_module c) | None \<Rightarrow> PNone),
         (''category_class_name'', case category wm of Some c \<Rightarrow> PStr (class_name c) | None \<Rightarrow> PNone)] k)"
  unfolding serialize_warning_message_def detail_keys_def message_text_def Let_def
  by (cases "message wm"; cases "category wm")
     (simp_all only: fold_serialize_detail_lookup warning_payload.case option.case prod.case)

text \<open>
  Claim C5. For every warning object and every serializer, the keys of the mapping that
  \<open>serialize_warning_message\<close> returns are the six keys of the literal together with
  every name of \<open>_WARNING_DETAILS\<close> other than \<open>message\<close> and \<open>category\<close>. The key
  set does not depend on \<open>dumps\<close>, so no key is absent when a value does not encode.
\<close>

theorem warning_keys_fixed:
  "fst ` set (serialize_warning_message h wm) = fixed_keys \<union> detail_keys wm"
proof -
  have "dom (map_of (serialize_warning_message h wm)) = fixed_keys \<union> detail_keys wm"
    unfolding dom_def serialize_warning_message_lookup fixed_keys_def
    by (auto split: if_splits)
  then show ?thesis by (simp add: dom_map_of_conv_image_fst)
qed

text \<open>
  Claim C9. The field \<open>message_str\<close> of the result is the text of the warning as a
  string, for a \<open>Warning\<close> instance and for a plain text alike. The hypothesis says that
  the warning class has no attribute called \<open>message_str\<close>, which the loop over
  \<open>_WARNING_DETAILS\<close> would store under the same key.
\<close>

theorem message_str_is_text:
  assumes "''message_str'' \<notin> set (WARNING_DETAILS wm)"
  shows "map_of (serialize_warning_message h wm) ''message_str'' = Some (PStr (message_text (message wm)))"
  using assms by (simp add: serialize_warning_message_lookup detail_keys_def)

theorem message_str_is_text_witness:
  "map_of (serialize_warning_message example_host example_warning) ''message_str''
     = Some (PStr ''careful'')"
  using message_str_is_text[of example_warning example_host]
  by (simp add: example_warning_def message_text_def)

text \<open>
  Claim C6. The conversion is a total function, and a value that does not encode
  degrades in place: \<open>message_args\<close> is \<open>None\<close> when \<open>dumps\<close> refuses the arguments of
  the \<open>Warning\<close> (no attribute of the warning class being called \<open>message_args\<close>), and
  every attribute of \<open>_WARNING_DETAILS\<close> that \<open>dumps\<close> refuses is stored as its \<open>repr\<close>
  under its own name.
\<close>

theorem unencodable_values_degrade:
  "(\<forall>cls s args. message wm = WarningInstance cls s args \<and> dumps h args = None
        \<and> ''message_args'' \<notin> set (WARNING_DETAILS wm)
      \<longrightarrow> map_of (serialize_warning_message h wm) ''message_args'' = Some PNone)
   \<and> (\<forall>a \<in> detail_keys wm. dumps h (getattr wm a) = None
      \<longrightarrow> map_of (serialize_warning_message h wm) a = Some (PStr (repr h (getattr wm a))))"
  by (auto simp: serialize_warning_message_lookup detail_keys_def detail_value_def)

theorem unencodable_values_degrade_witness:
  "map_of (serialize_warning_message example_host example_warning) ''message_args'' = Some PNone
   \<and> map_of (serialize_warning_message example_host example_warning) ''source''
       = Some (PStr ''<lock>'')
   \<and> map_of (serialize_warning_message example_host example_warning) ''lineno''
       = Some (PInt 3)"
proof -
  note t = unencodable_values_degrade[of example_warning example_host]
  have a: "message example_warning =
      WarningInstance (PyClass ''builtins'' ''UserWarning'') ''careful'' (PTuple [PObject ''<lock>''])"
    by (simp add: example_warning_def)
  have b: "dumps example_host (PTuple [PObject ''<lock>'']) = None"
    by (simp add: example_host_def)
  have c: "''message_args'' \<notin> set (WARNING_DETAILS example_warning)"
    by (simp add: example_warning_def)
  have d: "''source'' \<in> detail_keys example_warning"
    by (simp add: example_warning_def detail_keys_def)
  have e: "dumps example_host (getattr example_warning ''source'') = None"
    by (simp add: example_host_def example_warning_def)
  have f: "repr example_host (getattr example_warning ''source'') = ''<lock>''"
    by (simp add: example_host_def example_warning_def)
  from t a b c have 1: "map_of (serialize_warning_message example_host example_warning) ''message_args'' = Some PNone"
    by blast
  from t d e f have 2: "map_of (serialize_warning_message example_host example_warning) ''source'' = Some (PStr ''<lock>'')"
    by force
  have 3: "map_of (serialize_warning_message example_host example_warning) ''lineno'' = Some (PInt 3)"
    by (simp add: serialize_warning_message_lookup detail_keys_def detail_value_def
          example_warning_def example_host_def)
  from 1 2 3 show ?thesis by simp
qed

text \<open>
  Claim C7. \<open>pytest_collectreport\<close> on a report that passed leaves the interactor as it
  was, so nothing is sent; on a report that did not pass it sends exactly one event,
  \<open>collectreport\<close>, whose \<open>data\<close> is the serialized report.
\<close>

theorem collectreport_sent_iff_not_passed:
  "(passed rep \<longrightarrow> pytest_collectreport h w rep = w)
   \<and> (\<not> passed rep \<longrightarrow>
        extends w (pytest_collectreport h w rep) \<and>
        new_events w (pytest_collectreport h w rep) =
          [(''collectreport'', [(''data'', PDict (pytest_report_to_serializable h rep))])])"
  by (auto simp: pytest_collectreport_def Let_def sendevent_def extends_def new_events_def new_calls_def)

theorem collectreport_sent_iff_not_passed_witness:
  "pytest_collectreport example_host example_worker \<lparr>report.nodeid = ''mod.py'', passed = True\<rparr>
     = example_worker
   \<and> new_events example_worker
        (pytest_collectreport example_host example_worker \<lparr>report.nodeid = ''mod.py'', passed = False\<rparr>)
     = [(''collectreport'',
         [(''data'', PDict [(''nodeid'', PStr ''mod.py''), (''passed'', PBool False)])])]"
  using collectreport_sent_iff_not_passed[of "\<lparr>report.nodeid = ''mod.py'', passed = True\<rparr>" example_host example_worker]
    collectreport_sent_iff_not_passed[of "\<lparr>report.nodeid = ''mod.py'', passed = False\<rparr>" example_host example_worker]
  by (simp add: example_host_def)

subsection \<open>Running one item\<close>

lemma example_host_reports_own_item: "reports_own_item example_host"
  by (simp add: reports_own_item_def example_host_def)

lemma example_worker_valid:
  "valid_index (items example_worker) i = (-3 \<le> i \<and> i < 3)"
  by (simp add: example_worker_def valid_index_def)

text \<open>
  Claim C3. \<open>run_one_test\<close> on a list \<open>i # rest\<close> pops the head \<open>i\<close>, marks it as the
  current index and calls the host's run operation exactly once, with the item at \<open>i\<close>
  and, as \<open>nextitem\<close>, the item at the new head of the list when \<open>rest\<close> is not empty and
  \<open>None\<close> when it is. The call returns whenever both indices are indices of the plan and
  the host reports on the item it runs.
\<close>

theorem run_one_test_pops_head_and_looks_ahead:
  "(reports_own_item h \<and> valid_index (items w) i
      \<and> (rest \<noteq> [] \<longrightarrow> valid_index (items w) (hd rest))
     \<longrightarrow> (\<exists>w'. run_one_test h w (i # rest) = Inr (w', rest)))
   \<and> (\<forall>w' torun'. run_one_test h w (i # rest) = Inr (w', torun') \<longrightarrow>
         torun' = rest \<and> item_index w' = Some i
         \<and> (\<exists>it. getitem (items w) i = Inr it
              \<and> (if rest = [] then new_calls w w' = [(it, None)]
                  else \<exists>nx. getitem (items w) (hd rest) = Inr nx
                         \<and> new_calls w w' = [(it, Some nx)])))"
proof (intro conjI allI impI)
  assume "reports_own_item h \<and> valid_index (items w) i
      \<and> (rest \<noteq> [] \<longrightarrow> valid_index (items w) (hd rest))"
  then show "\<exists>w'. run_one_test h w (i # rest) = Inr (w', rest)"
    using run_one_test_ok[of h w i rest] by blast
next
  fix w' torun'
  assume r: "run_one_test h w (i # rest) = Inr (w', torun')"
  from run_one_test_step[OF r] obtain it nx where
    s: "torun' = rest" "getitem (items w) i = Inr it" "lookahead (items w) torun' = Inr nx"
       "item_index w' = Some i" "new_calls w w' = [(it, nx)]"
    by auto
  from s show "torun' = rest" "item_index w' = Some i" by simp_all
  from s show "\<exists>it. getitem (items w) i = Inr it
      \<and> (if rest = [] then new_calls w w' = [(it, None)]
          else \<exists>nx. getitem (items w) (hd rest) = Inr nx \<and> new_calls w w' = [(it, Some nx)])"
    by (auto simp: lookahead_def split: if_splits sum.splits)
qed

theorem run_one_test_pops_head_and_looks_ahead_witness:
  "(\<exists>w'. run_one_test example_host example_worker [2, 0] = Inr (w', [0])
       \<and> item_index w' = Some 2
       \<and> new_calls example_worker w'
           = [(\<lparr>item.nodeid = ''test_c''\<rparr>, Some \<lparr>item.nodeid = ''test_a''\<rparr>)])
   \<and> (\<exists>w'. run_one_test example_host example_worker [1] = Inr (w', [])
       \<and> item_index w' = Some 1
       \<and> new_calls example_worker w' = [(\<lparr>item.nodeid = ''test_b''\<rparr>, None)])"
proof -
  have g: "getitem (items example_worker) 2 = Inr \<lparr>item.nodeid = ''test_c''\<rparr>"
    "getitem (items example_worker) 0 = Inr \<lparr>item.nodeid = ''test_a''\<rparr>"
    "getitem (items example_worker) 1 = Inr \<lparr>item.nodeid = ''test_b''\<rparr>"
    by (simp_all add: getitem_def example_worker_def)
  note a = run_one_test_pops_head_and_looks_ahead[of example_host example_worker 2 "[0]"]
  note b = run_one_test_pops_head_and_looks_ahead[of example_host example_worker 1 "[]"]
  from a obtain w1 where w1: "run_one_test example_host example_worker [2, 0] = Inr (w1, [0])"
    using example_host_reports_own_item by (auto simp: example_worker_valid)
  from b obtain w2 where w2: "run_one_test example_host example_worker [1] = Inr (w2, [])"
    using example_host_reports_own_item by (auto simp: example_worker_valid)
  from a w1 g have "item_index w1 = Some 2
       \<and> new_calls example_worker w1
           = [(\<lparr>item.nodeid = ''test_c''\<rparr>, Some \<lparr>item.nodeid = ''test_a''\<rparr>)]"
    by auto
  moreover from b w2 g have "item_index w2 = Some 1
       \<and> new_calls example_worker w2 = [(\<lparr>item.nodeid = ''test_b''\<rparr>, None)]"
    by auto
  ultimately show ?thesis using w1 w2 by blast
qed

subsection \<open>One command\<close>

lemma process_command_Inr:
  assumes "process_command h w torun name kwargs = Inr (brk, w', torun')"
  shows "\<exists>q. enqueue w torun name kwargs = Inr q
      \<and> extends w w' \<and> run_events (new_events w w')
      \<and> brk = (name = ''shutdown'')
      \<and> completed (new_events w w') @ torun' = q
      \<and> (if name = ''shutdown''
          then torun' = [] \<and> length (new_calls w w') = length q
             \<and> list_all (\<lambda>c. snd c \<noteq> None) (butlast (new_calls w w'))
             \<and> (q \<noteq> [] \<longrightarrow> snd (last (new_calls w w')) = None)
          else torun' = drop (length q - 1) q \<and> length (new_calls w w') = length q - 1
             \<and> list_all (\<lambda>c. snd c \<noteq> None) (new_calls w w'))"
proof -
  from assms obtain q where q: "enqueue w torun name kwargs = Inr q"
    by (auto simp: process_command_def split: sum.splits)
  from assms q obtain w1 t1 where rw: "run_while h w q = Inr (w1, t1)"
    by (auto simp: process_command_def split: sum.splits)
  from run_while_Inr[OF rw] have
    s: "extends w w1" "t1 = drop (length q - 1) q"
       "completed (new_events w w1) = take (length q - 1) q"
       "list_all (\<lambda>c. snd c \<noteq> None) (new_calls w w1)"
       "length (new_calls w w1) = length q - 1" "run_events (new_events w w1)"
    by auto
  show ?thesis
  proof (cases "name = ''shutdown''")
    case False
    with assms q rw have "brk = False" "w' = w1" "torun' = t1"
      by (auto simp: process_command_def)
    with False q s show ?thesis by simp
  next
    case True
    show ?thesis
    proof (cases "t1 = []")
      case True
      with \<open>name = ''shutdown''\<close> assms q rw have e: "brk = True" "w' = w1" "torun' = t1"
        by (auto simp: process_command_def)
      from True s(2) have "q = []" by (cases q) auto
      with \<open>name = ''shutdown''\<close> True q s e show ?thesis by simp
    next
      case False
      with \<open>name = ''shutdown''\<close> assms q rw obtain
        r: "run_one_test h w1 t1 = Inr (w', torun')" and b: "brk = True"
        by (auto simp: process_command_def split: sum.splits)
      from False s(2) obtain x where t1: "t1 = [x]" and qne: "q \<noteq> []"
        by (cases q rule: rev_cases) auto
      from run_one_test_step[OF r] t1 obtain it nx where
        u: "torun' = []" "lookahead (items w1) [] = Inr nx" "extends w1 w'"
           "new_calls w1 w' = [(it, nx)]" "completed (new_events w1 w') = [x]"
           "run_events (new_events w1 w')"
        by auto
      from u(1,2) lookahead_None[of "items w1" "[]" nx] have nx: "nx = None" by simp
      note tr = extends_trans[OF s(1) u(3)]
      have "take (length q - 1) q @ [x] = q"
        using s(2) t1 by (metis append_take_drop_id)
      with tr s u nx b q qne \<open>name = ''shutdown''\<close> show ?thesis
        by (simp add: completed_append run_events_append)
    qed
  qed
qed

lemma process_command_ok:
  assumes "reports_own_item h" "enqueue w torun name kwargs = Inr q"
    "list_all (valid_index (items w)) q"
  shows "\<exists>r. process_command h w torun name kwargs = Inr r"
proof -
  from run_while_ok[OF assms(1,3)] obtain w1 where
    rw: "run_while h w q = Inr (w1, drop (length q - 1) q)" by auto
  from run_while_Inr[OF rw] have it: "items w1 = items w" by (simp add: extends_def)
  show ?thesis
  proof (cases "name = ''shutdown'' \<and> drop (length q - 1) q \<noteq> []")
    case False
    with assms(2) rw show ?thesis by (auto simp: process_command_def)
  next
    case True
    then obtain x where x: "drop (length q - 1) q = [x]" "x \<in> set q"
      by (cases q rule: rev_cases) auto
    with assms(3) it have "valid_index (items w1) x" by (simp add: list_all_iff)
    from run_one_test_ok[OF assms(1) this, of "[]"] obtain w2 where
      "run_one_test h w1 [x] = Inr (w2, [])" by auto
    with True assms(2) rw x show ?thesis by (auto simp: process_command_def)
  qed
qed

text \<open>
  Claim C2. Let \<open>q\<close> be the list \<open>torun\<close> after a command's indices were appended. While
  the command is processed, the host's run operation is called \<open>length q - 1\<close> times when
  the command is not \<open>shutdown\<close>, so not at all when \<open>q\<close> has fewer than two entries,
  and every call has a next item: by \<open>lookahead_None\<close> that is a call made while at
  least two entries were queued. The loop body then does not break. For \<open>shutdown\<close>
  there is one more call when an entry remains, the last one, with \<open>nextitem = None\<close>;
  then \<open>torun\<close> is empty and the loop returns, whatever else the channel holds. The
  body returns whenever the queued indices are indices of the plan and the host reports
  on the item it runs.
\<close>

theorem executes_only_with_two_queued_until_shutdown:
  assumes "enqueue w torun name kwargs = Inr q"
  shows
  "(reports_own_item h \<and> list_all (valid_index (items w)) q
      \<longrightarrow> (\<exists>r. process_command h w torun name kwargs = Inr r))
   \<and> (\<forall>brk w' torun'. process_command h w torun name kwargs = Inr (brk, w', torun') \<longrightarrow>
       (if name = ''shutdown''
        then brk \<and> torun' = [] \<and> length (new_calls w w') = length q
           \<and> list_all (\<lambda>c. snd c \<noteq> None) (butlast (new_calls w w'))
           \<and> (q \<noteq> [] \<longrightarrow> snd (last (new_calls w w')) = None)
           \<and> (\<forall>rest. runtestloop_from h w torun (Command name kwargs # rest)
                       = Inr (Returned True, w', []))
        else \<not> brk \<and> torun' = drop (length q - 1) q
           \<and> length (new_calls w w') = length q - 1
           \<and> list_all (\<lambda>c. snd c \<noteq> None) (new_calls w w')))"
proof (intro conjI allI impI)
  assume "reports_own_item h \<and> list_all (valid_index (items w)) q"
  with process_command_ok[OF _ assms, of h]
  show "\<exists>r. process_command h w torun name kwargs = Inr r" by blast
next
  fix brk w' torun'
  assume p: "process_command h w torun name kwargs = Inr (brk, w', torun')"
  from process_command_Inr[OF p] assms have
    f: "brk = (name = ''shutdown'')"
      "if name = ''shutdown''
          then torun' = [] \<and> length (new_calls w w') = length q
             \<and> list_all (\<lambda>c. snd c \<noteq> None) (butlast (new_calls w w'))
             \<and> (q \<noteq> [] \<longrightarrow> snd (last (new_calls w w')) = None)
          else torun' = drop (length q - 1) q \<and> length (new_calls w w') = length q - 1
             \<and> list_all (\<lambda>c. snd c \<noteq> None) (new_calls w w')"
    by auto
  show "if name = ''shutdown''
        then brk \<and> torun' = [] \<and> length (new_calls w w') = length q
           \<and> list_all (\<lambda>c. snd c \<noteq> None) (butlast (new_calls w w'))
           \<and> (q \<noteq> [] \<longrightarrow> snd (last (new_calls w w')) = None)
           \<and> (\<forall>rest. runtestloop_from h w torun (Command name kwargs # rest)
                       = Inr (Returned True, w', []))
        else \<not> brk \<and> torun' = drop (length q - 1) q
           \<and> length (new_calls w w') = length q - 1
           \<and> list_all (\<lambda>c. snd c \<noteq> None) (new_calls w w')"
  proof (cases "name = ''shutdown''")
    case True
    with f have "brk" "torun' = []" by simp_all
    with p have "\<forall>rest. runtestloop_from h w torun (Command name kwargs # rest)
                       = Inr (Returned True, w', [])" by simp
    with True f show ?thesis by simp
  next
    case False
    with f show ?thesis by simp
  qed
qed

theorem executes_only_with_two_queued_until_shutdown_witness:
  "(\<exists>w'. process_command example_host example_worker [] ''runtests'' [(''indices'', [2, 0, 1])]
            = Inr (False, w', [1])
        \<and> length (new_calls example_worker w') = 2
        \<and> list_all (\<lambda>c. snd c \<noteq> None) (new_calls example_worker w'))
   \<and> (\<exists>w'. process_command example_host example_worker [1] ''shutdown'' []
            = Inr (True, w', [])
        \<and> length (new_calls example_worker w') = 1
        \<and> snd (last (new_calls example_worker w')) = None)"
proof -
  have e1: "enqueue example_worker [] ''runtests'' [(''indices'', [2, 0, 1])] = Inr [2, 0, 1]"
    by (simp add: enqueue_def)
  have e2: "enqueue example_worker [1] ''shutdown'' [] = Inr [1]"
    by (simp add: enqueue_def)
  note a = executes_only_with_two_queued_until_shutdown[OF e1, of example_host]
  note b = executes_only_with_two_queued_until_shutdown[OF e2, of example_host]
  have v: "list_all (valid_index (items example_worker)) [2, 0, 1]"
    "list_all (valid_index (items example_worker)) [1]"
    by (simp_all add: example_worker_valid)
  from a v example_host_reports_own_item obtain brk1 w1 t1 where
    p1: "process_command example_host example_worker [] ''runtests'' [(''indices'', [2, 0, 1])]
           = Inr (brk1, w1, t1)"
    by (metis prod_cases3)
  from b v example_host_reports_own_item obtain brk2 w2 t2 where
    p2: "process_command example_host example_worker [1] ''shutdown'' [] = Inr (brk2, w2, t2)"
    by (metis prod_cases3)
  from a p1 have "brk1 = False \<and> t1 = [1] \<and> length (new_calls example_worker w1) = 2
        \<and> list_all (\<lambda>c. snd c \<noteq> None) (new_calls example_worker w1)"
    by simp
  moreover from b p2 have "brk2 = True \<and> t2 = [] \<and> length (new_calls example_worker w2) = 1
        \<and> snd (last (new_calls example_worker w2)) = None"
    by simp
  ultimately show ?thesis using p1 p2 by blast
qed

subsection \<open>The outer loop\<close>

lemma runtestloop_from_append:
  "runtestloop_from h w torun (pre @ post) =
     (case runtestloop_from h w torun pre of
        Inr (Blocked, w', torun') \<Rightarrow> runtestloop_from h w' torun' post
      | r \<Rightarrow> r)"
proof (induction pre arbitrary: w torun)
  case Nil
  then show ?case by simp
next
  case (Cons c pre)
  show ?case
  proof (cases c)
    case EOFError
    then show ?thesis by simp
  next
    case (Command name kwargs)
    show ?thesis
    proof (cases "process_command h w torun name kwargs")
      case (Inl e)
      with Command show ?thesis by simp
    next
      case (Inr r)
      obtain brk w1 t1 where r: "r = (brk, w1, t1)" by (cases r)
      with Inr Command Cons.IH[of w1 t1] show ?thesis by simp
    qed
  qed
qed

lemma runtestloop_from_Inr:
  "runtestloop_from h w torun incoming = Inr (out, w', torun') \<Longrightarrow>
     extends w w' \<and> run_events (new_events w w')
     \<and> (out = Blocked \<and> length torun \<le> 1 \<longrightarrow> length torun' \<le> 1)"
proof (induction incoming arbitrary: w torun)
  case Nil
  then show ?case by (simp add: extends_refl run_events_def)
next
  case (Cons c incoming)
  show ?case
  proof (cases c)
    case EOFError
    with Cons.prems show ?thesis by (auto simp: extends_refl run_events_def)
  next
    case (Command name kwargs)
    with Cons.prems obtain brk w1 t1 where
      p: "process_command h w torun name kwargs = Inr (brk, w1, t1)"
      by (auto split: sum.splits)
    from process_command_Inr[OF p] obtain q where
      s: "extends w w1" "run_events (new_events w w1)" "brk = (name = ''shutdown'')"
      and q: "name \<noteq> ''shutdown'' \<longrightarrow> t1 = drop (length q - 1) q"
      by (metis (no_types, lifting))
    from s(3) q have "\<not> brk \<longrightarrow> t1 = drop (length q - 1) q" by simp
    then have "\<not> brk \<longrightarrow> length t1 \<le> 1" by auto
    note s = s this
    show ?thesis
    proof (cases brk)
      case True
      with Cons.prems Command p have "out = Returned True" "w' = w1" by auto
      with s show ?thesis by simp
    next
      case False
      with Cons.prems Command p have "runtestloop_from h w1 t1 incoming = Inr (out, w', torun')"
        by simp
      from Cons.IH[OF this] have
        i: "extends w1 w'" "run_events (new_events w1 w')"
           "out = Blocked \<and> length t1 \<le> 1 \<longrightarrow> length torun' \<le> 1"
        by auto
      from extends_trans[OF s(1) i(1)] s i False show ?thesis
        by (simp add: run_events_append)
    qed
  qed
qed

lemma run_while_short: "length torun < 2 \<Longrightarrow> run_while h w torun = Inr (w, torun)"
  by (subst run_while.simps) simp

lemma process_command_unknown:
  assumes "name \<notin> {''runtests'', ''runtests_all'', ''shutdown''}" "length torun < 2"
  shows "process_command h w torun name kwargs = Inr (False, w, torun)"
  using assms by (simp add: process_command_def enqueue_def run_while_short)

text \<open>
  Claim C10. A command whose name is none of \<open>runtests\<close>, \<open>runtests_all\<close> and
  \<open>shutdown\<close> changes nothing: with fewer than two entries in \<open>torun\<close>, which is the case
  at every \<open>channel.receive()\<close> of the loop, the loop body returns the interactor and
  \<open>torun\<close> as they were, raises nothing and does not break; and the loop on a run of
  received messages ends as it does on the run without that command, so it goes on to
  the next \<open>channel.receive()\<close>.
\<close>

theorem unknown_command_is_ignored:
  assumes "name \<notin> {''runtests'', ''runtests_all'', ''shutdown''}"
  shows "(length torun < 2 \<longrightarrow> process_command h w torun name kwargs = Inr (False, w, torun))
       \<and> pytest_runtestloop h w (pre @ Command name kwargs # rest)
           = pytest_runtestloop h w (pre @ rest)"
proof
  show "length torun < 2 \<longrightarrow> process_command h w torun name kwargs = Inr (False, w, torun)"
    using process_command_unknown[OF assms] by blast
next
  show "pytest_runtestloop h w (pre @ Command name kwargs # rest)
           = pytest_runtestloop h w (pre @ rest)"
  proof (cases "runtestloop_from h w [] pre")
    case (Inl e)
    then show ?thesis by (simp add: pytest_runtestloop_def runtestloop_from_append)
  next
    case (Inr r)
    obtain out w1 t1 where r: "r = (out, w1, t1)" by (cases r)
    show ?thesis
    proof (cases out)
      case (Returned b)
      with Inr r show ?thesis by (simp add: pytest_runtestloop_def runtestloop_from_append)
    next
      case Blocked
      with Inr r runtestloop_from_Inr[of h w "[]" pre out w1 t1] have "length t1 < 2" by simp
      from process_command_unknown[OF assms this]
      have "runtestloop_from h w1 t1 (Command name kwargs # rest) = runtestloop_from h w1 t1 rest"
        by simp
      with Inr r Blocked show ?thesis
        by (simp add: pytest_runtestloop_def runtestloop_from_append)
    qed
  qed
qed

theorem unknown_command_is_ignored_witness:
  "process_command example_host example_worker [1] ''ping'' [] = Inr (False, example_worker, [1])
   \<and> pytest_runtestloop example_host example_worker [Command ''ping'' []]
       = Inr (Blocked, example_worker, [])"
  using unknown_command_is_ignored[of "''ping''" "[1]" example_host example_worker "[]" "[]" "[]"]
  by (simp add: pytest_runtestloop_def)

text \<open>
  Claim C8. When the loop has consumed the messages \<open>pre\<close> and waits in
  \<open>channel.receive()\<close> (no \<open>shutdown\<close> among them, nothing raised), an \<open>EOFError\<close> from
  the channel makes it return \<open>True\<close> at once: the result is a value and not an
  exception, the interactor and \<open>torun\<close> are the ones it waited with, so nothing is sent
  for the end of the stream, and no event of the whole loop is an \<open>internal_error\<close>.
\<close>

theorem end_of_stream_returns_cleanly:
  assumes "pytest_runtestloop h w pre = Inr (Blocked, w', torun')"
  shows "pytest_runtestloop h w (pre @ EOFError # rest) = Inr (Returned True, w', torun')
       \<and> ''internal_error'' \<notin> fst ` set (new_events w w')"
proof
  from assms show "pytest_runtestloop h w (pre @ EOFError # rest) = Inr (Returned True, w', torun')"
    by (simp add: pytest_runtestloop_def runtestloop_from_append)
  from assms runtestloop_from_Inr[of h w "[]" pre Blocked w' torun']
  have "run_events (new_events w w')" by (simp add: pytest_runtestloop_def)
  then show "''internal_error'' \<notin> fst ` set (new_events w w')"
    by (auto simp: run_events_def list_all_iff)
qed

theorem end_of_stream_returns_cleanly_witness:
  "pytest_runtestloop example_host example_worker [Command ''runtests'' [(''indices'', [1])]]
     = Inr (Blocked, example_worker, [1])
   \<and> pytest_runtestloop example_host example_worker
       [Command ''runtests'' [(''indices'', [1])], EOFError]
     = Inr (Returned True, example_worker, [1])"
proof -
  have b: "pytest_runtestloop example_host example_worker [Command ''runtests'' [(''indices'', [1])]]
     = Inr (Blocked, example_worker, [1])"
    by (simp add: pytest_runtestloop_def process_command_def enqueue_def run_while_short)
  from end_of_stream_returns_cleanly[OF b, of "[]"] b show ?thesis by simp
qed

subsection \<open>Reports and the item that runs\<close>

lemma getitem_Inl: "getitem xs i = Inl e \<Longrightarrow> e = IndexError"
  by (auto simp: getitem_def split: if_splits)

lemma logreport_Inr:
  assumes "pytest_runtest_logreport h w rep = Inr w'"
  shows "\<exists>i it data. item_index w = Some i \<and> getitem (items w) i = Inr it
      \<and> item.nodeid it = report.nodeid rep
      \<and> sent w' = sent w @ [(''testreport'', [(''data'', PDict data)])]
      \<and> map_of data ''item_index'' = Some (PInt i)"
  using assms
  by (auto simp: pytest_runtest_logreport_def Let_def sendevent_def update_conv'
        split: option.splits sum.splits if_splits)

lemma dispatch_reports_for:
  assumes "dispatch h w c = Inr w'" "item_index w = Some i"
  shows "\<exists>e. sent w' = sent w @ [e] \<and> reports_for i [e]"
proof (cases c)
  case (LogReport rep)
  with assms logreport_Inr[of h w rep w'] show ?thesis
    by (auto simp: reports_for_def)
qed (use assms in \<open>auto simp: reports_for_def sendevent_def pytest_runtest_logstart_def
        pytest_runtest_logfinish_def pytest_warning_recorded_def\<close>)

lemma dispatch_all_reports_for:
  "dispatch_all h w cs = Inr w' \<Longrightarrow> item_index w = Some i \<Longrightarrow>
     \<exists>es. sent w' = sent w @ es \<and> reports_for i es"
proof (induction cs arbitrary: w)
  case Nil
  then show ?case by (simp add: reports_for_def)
next
  case (Cons c cs)
  from Cons.prems obtain w1 where d: "dispatch h w c = Inr w1" and r: "dispatch_all h w1 cs = Inr w'"
    by (auto split: sum.splits)
  from dispatch_frame[OF d] Cons.prems have i: "item_index w1 = Some i" by simp
  from dispatch_reports_for[OF d Cons.prems(2)] obtain e where
    e: "sent w1 = sent w @ [e]" "reports_for i [e]" by auto
  from Cons.IH[OF r i] obtain es where es: "sent w' = sent w1 @ es" "reports_for i es" by auto
  from e es have "sent w' = sent w @ (e # es)" "reports_for i (e # es)"
    by (simp_all add: reports_for_def)
  then show ?case by blast
qed

lemma run_one_test_reports_for:
  assumes "run_one_test h w torun = Inr (w', torun')"
  shows "\<exists>i. torun = i # torun' \<and> reports_for i (new_events w w')"
proof -
  from run_one_test_step[OF assms] obtain i it nx where
    s: "torun = i # torun'" "getitem (items w) i = Inr it" "lookahead (items w) torun' = Inr nx"
    by auto
  obtain cbs d where p: "pytest_runtest_protocol h (hostcalls w) it nx = (cbs, d)"
    by (cases "pytest_runtest_protocol h (hostcalls w) it nx")
  let ?w2 = "w\<lparr>item_index := Some i, hostcalls := hostcalls w @ [(it, nx)]\<rparr>"
  from assms s p obtain w3 where d3: "dispatch_all h ?w2 cbs = Inr w3"
    and w': "w' = sendevent w3 ''runtest_protocol_complete''
                     [(''item_index'', PInt i), (''duration'', PFloat d)]"
    apply (simp add: run_one_test_def lookahead_def Let_def split: sum.splits if_splits)
    by (auto dest!: dispatch_all_frame split: option.splits)
  from dispatch_all_reports_for[OF d3, of i] obtain es where
    es: "sent w3 = sent w @ es" "reports_for i es" by auto
  from es w' have "new_events w w' = es @ [(''runtest_protocol_complete'',
       [(''item_index'', PInt i), (''duration'', PFloat d)])]"
    by (simp add: new_events_def sendevent_def)
  with es(2) s(1) show ?thesis by (simp add: reports_for_def)
qed

lemma run_one_test_Inl:
  assumes "reports_own_item h" "run_one_test h w torun = Inl e"
  shows "e = IndexError"
proof (cases torun)
  case Nil
  with assms(2) show ?thesis by (simp add: run_one_test_def)
next
  case (Cons i rest)
  show ?thesis
  proof (cases "valid_index (items w) i \<and> (rest \<noteq> [] \<longrightarrow> valid_index (items w) (hd rest))")
    case True
    with run_one_test_ok[OF assms(1), of w i rest] assms(2) Cons show ?thesis by auto
  next
    case False
    then consider "\<exists>e. getitem (items w) i = Inl e"
      | "rest \<noteq> []" "\<exists>e. getitem (items w) (hd rest) = Inl e"
      by (metis getitem_Inr_valid sum.exhaust_sel sum.collapse(2))
    then show ?thesis
    proof cases
      case 1
      with assms(2) Cons show ?thesis
        by (auto simp: run_one_test_def Let_def dest: getitem_Inl)
    next
      case 2
      with assms(2) Cons show ?thesis
        by (auto simp: run_one_test_def Let_def dest: getitem_Inl split: sum.splits)
    qed
  qed
qed

lemma run_while_Inl:
  "reports_own_item h \<Longrightarrow> run_while h w torun = Inl e \<Longrightarrow> e = IndexError"
proof (induction h w torun rule: run_while.induct)
  case (1 h w torun)
  show ?case
  proof (cases "2 \<le> length torun")
    case False
    then have "run_while h w torun = Inr (w, torun)" by (simp add: run_while_short)
    with "1.prems" show ?thesis by simp
  next
    case True
    have unf: "run_while h w torun =
        (case run_one_test h w torun of Inl e \<Rightarrow> Inl e | Inr (w1, t1) \<Rightarrow> run_while h w1 t1)"
      using True by (subst run_while.simps) simp
    show ?thesis
    proof (cases "run_one_test h w torun")
      case (Inl e')
      with unf "1.prems" run_one_test_Inl[OF "1.prems"(1) Inl] show ?thesis by simp
    next
      case (Inr r)
      obtain w1 t1 where r: "r = (w1, t1)" by (cases r)
      with Inr unf "1.prems" have "run_while h w1 t1 = Inl e" by simp
      from "1.IH"[OF True Inr[unfolded r] refl "1.prems"(1) this] show ?thesis .
    qed
  qed
qed

lemma process_command_Inl:
  assumes "reports_own_item h" "process_command h w torun name kwargs = Inl e"
  shows "e \<in> {IndexError, KeyError}"
proof (cases "enqueue w torun name kwargs")
  case (Inl e')
  then have "e' = KeyError" by (auto simp: enqueue_def split: if_splits option.splits)
  with Inl assms(2) show ?thesis by (simp add: process_command_def)
next
  case (Inr q)
  show ?thesis
  proof (cases "run_while h w q")
    case (Inl e')
    with Inr assms(2) run_while_Inl[OF assms(1) Inl] show ?thesis
      by (simp add: process_command_def)
  next
    case r: (Inr r)
    obtain w1 t1 where "r = (w1, t1)" by (cases r)
    with Inr r assms(2) have "run_one_test h w1 t1 = Inl e"
      by (auto simp: process_command_def split: if_splits sum.splits)
    from run_one_test_Inl[OF assms(1) this] show ?thesis by simp
  qed
qed

lemma runtestloop_from_Inl:
  "reports_own_item h \<Longrightarrow> runtestloop_from h w torun incoming = Inl e \<Longrightarrow>
     e \<in> {IndexError, KeyError}"
proof (induction incoming arbitrary: w torun)
  case Nil
  then show ?case by simp
next
  case (Cons c incoming)
  show ?case
  proof (cases c)
    case EOFError
    with Cons.prems show ?thesis by simp
  next
    case (Command name kwargs)
    show ?thesis
    proof (cases "process_command h w torun name kwargs")
      case (Inl e')
      with Command Cons.prems process_command_Inl[OF Cons.prems(1) Inl] show ?thesis by simp
    next
      case (Inr r)
      obtain brk w1 t1 where "r = (brk, w1, t1)" by (cases r)
      with Inr Command Cons.prems have "runtestloop_from h w1 t1 incoming = Inl e"
        by (auto split: if_splits)
      from Cons.IH[OF Cons.prems(1) this] show ?thesis .
    qed
  qed
qed

text \<open>
  Claim C4. Whenever \<open>pytest_runtest_logreport\<close> returns, it has sent exactly one
  \<open>testreport\<close> event whose field \<open>item_index\<close> is the index marked as current, and
  the report's \<open>nodeid\<close> is the \<open>nodeid\<close> of the plan's item at that index. During
  \<open>run_one_test\<close> on \<open>i # rest\<close> the index marked is \<open>i\<close>, and every \<open>testreport\<close>
  event sent carries it. With a host that reports on the item it runs, the \<open>assert\<close>
  never fails: neither \<open>run_one_test\<close> nor the loop raises \<open>AssertionError\<close>.
\<close>

theorem testreport_correlates_with_running_item:
  "(\<forall>w'. pytest_runtest_logreport h w rep = Inr w' \<longrightarrow>
      (\<exists>i it data. item_index w = Some i \<and> getitem (items w) i = Inr it
         \<and> item.nodeid it = report.nodeid rep
         \<and> new_events w w' = [(''testreport'', [(''data'', PDict data)])]
         \<and> map_of data ''item_index'' = Some (PInt i)))
   \<and> (\<forall>w' i rest torun'. run_one_test h w (i # rest) = Inr (w', torun') \<longrightarrow>
         item_index w' = Some i \<and> reports_for i (new_events w w'))
   \<and> (reports_own_item h \<longrightarrow>
         (\<forall>torun. run_one_test h w torun \<noteq> Inl AssertionError)
         \<and> (\<forall>incoming. pytest_runtestloop h w incoming \<noteq> Inl AssertionError))"
proof (intro conjI allI impI)
  fix w'
  assume "pytest_runtest_logreport h w rep = Inr w'"
  from logreport_Inr[OF this]
  show "\<exists>i it data. item_index w = Some i \<and> getitem (items w) i = Inr it
         \<and> item.nodeid it = report.nodeid rep
         \<and> new_events w w' = [(''testreport'', [(''data'', PDict data)])]
         \<and> map_of data ''item_index'' = Some (PInt i)"
    by (auto simp: new_events_def)
next
  fix w' i rest torun'
  assume r: "run_one_test h w (i # rest) = Inr (w', torun')"
  from run_one_test_step[OF r] show "item_index w' = Some i" by auto
  from run_one_test_reports_for[OF r] show "reports_for i (new_events w w')" by auto
next
  fix torun
  assume "reports_own_item h"
  from run_one_test_Inl[OF this] show "run_one_test h w torun \<noteq> Inl AssertionError" by force
next
  fix incoming
  assume "reports_own_item h"
  from runtestloop_from_Inl[OF this, of w "[]" incoming AssertionError]
  show "pytest_runtestloop h w incoming \<noteq> Inl AssertionError"
    by (auto simp: pytest_runtestloop_def)
qed

theorem testreport_correlates_with_running_item_witness:
  "reports_own_item example_host
   \<and> (\<exists>w'. run_one_test example_host example_worker [2, 0] = Inr (w', [0])
         \<and> item_index w' = Some 2 \<and> reports_for 2 (new_events example_worker w'))
   \<and> pytest_runtestloop example_host example_worker
        [Command ''runtests_all'' [], Command ''shutdown'' []] \<noteq> Inl AssertionError"
proof -
  note t = testreport_correlates_with_running_item[of example_host example_worker]
  from run_one_test_ok[OF example_host_reports_own_item, of example_worker 2 "[0]"]
  obtain w' where r: "run_one_test example_host example_worker [2, 0] = Inr (w', [0])"
    by (auto simp: example_worker_valid)
  with t have "item_index w' = Some 2 \<and> reports_for 2 (new_events example_worker w')"
    by blast
  moreover from t example_host_reports_own_item
  have "pytest_runtestloop example_host example_worker
        [Command ''runtests_all'' [], Command ''shutdown'' []] \<noteq> Inl AssertionError"
    by blast
  ultimately show ?thesis using r example_host_reports_own_item by blast
qed

subsection \<open>Draining in order\<close>

lemma enqueue_run_command:
  assumes "run_command (items w) c"
  shows "enqueue w torun (fst c) (snd c) = Inr (torun @ queued_by (items w) c)"
    "list_all (valid_index (items w)) (queued_by (items w) c)"
    "fst c \<noteq> ''shutdown''"
  using assms
  by (auto simp: run_command_def enqueue_def queued_by_def valid_index_def list_all_iff
        split: if_splits option.splits)

lemma runtestloop_from_run_commands:
  assumes "reports_own_item h"
  shows "list_all (run_command (items w)) cmds \<Longrightarrow> list_all (valid_index (items w)) torun \<Longrightarrow>
     length torun \<le> 1 \<Longrightarrow>
     \<exists>w1 pending.
       runtestloop_from h w torun (map to_received cmds) = Inr (Blocked, w1, pending)
       \<and> extends w w1
       \<and> completed (new_events w w1) @ pending = torun @ concat (map (queued_by (items w)) cmds)
       \<and> length pending = min 1 (length (torun @ concat (map (queued_by (items w)) cmds)))
       \<and> list_all (valid_index (items w)) pending
       \<and> list_all (\<lambda>c. snd c \<noteq> None) (new_calls w w1)"
proof (induction cmds arbitrary: w torun)
  case Nil
  then show ?case by (auto simp: extends_refl)
next
  case (Cons c cmds)
  let ?q = "torun @ queued_by (items w) c"
  let ?R = "concat (map (queued_by (items w)) cmds)"
  from Cons.prems(1) have rc: "run_command (items w) c" by simp
  note e = enqueue_run_command(1)[OF rc, of torun] enqueue_run_command(2,3)[OF rc]
  from e(2) Cons.prems(2) have vq: "list_all (valid_index (items w)) ?q" by simp
  from process_command_ok[OF assms e(1) vq] obtain brk w1 t1 where
    p: "process_command h w torun (fst c) (snd c) = Inr (brk, w1, t1)"
    by (metis prod_cases3)
  from process_command_Inr[OF p] e(1) e(3) have
    s: "extends w w1" "brk = False" "completed (new_events w w1) @ t1 = ?q"
       "t1 = drop (length ?q - 1) ?q" "list_all (\<lambda>c. snd c \<noteq> None) (new_calls w w1)"
    by auto
  from s(1) have it: "items w1 = items w" by (simp add: extends_def)
  from s(4) have l1: "length t1 = min 1 (length ?q)" by auto
  from s(4) vq have v1: "list_all (valid_index (items w1)) t1"
    unfolding it list_all_iff using in_set_dropD by fastforce
  from Cons.prems(1) it have c1: "list_all (run_command (items w1)) cmds" by simp
  from l1 have "length t1 \<le> 1" by simp
  from Cons.IH[OF c1 v1 this] it obtain w2 pending where
    i: "runtestloop_from h w1 t1 (map to_received cmds) = Inr (Blocked, w2, pending)"
       "extends w1 w2"
       "completed (new_events w1 w2) @ pending = t1 @ ?R"
       "length pending = min 1 (length (t1 @ ?R))"
       "list_all (valid_index (items w)) pending"
       "list_all (\<lambda>c. snd c \<noteq> None) (new_calls w1 w2)"
    by auto
  note tr = extends_trans[OF s(1) i(2)]
  have "runtestloop_from h w torun (map to_received (c # cmds)) = Inr (Blocked, w2, pending)"
    using p s(2) i(1) by (simp add: to_received_def)
  moreover have "completed (new_events w w2) @ pending = torun @ concat (map (queued_by (items w)) (c # cmds))"
    using tr(2) s(3) i(3) by (simp add: completed_append)
  moreover have "length pending = min 1 (length (torun @ concat (map (queued_by (items w)) (c # cmds))))"
    using i(4) l1 by auto
  moreover have "list_all (\<lambda>c. snd c \<noteq> None) (new_calls w w2)"
    using tr(3) s(5) i(6) by simp
  ultimately show ?case using tr(1) i(5) by blast
qed

text \<open>
  Claim C1, as the code has it. Let the loop receive commands that are each a
  \<open>runtests\<close> with indices of the plan or a \<open>runtests_all\<close>, with a host that reports
  on the item it runs. Then the loop consumes them all and waits for the next one; the
  indices drained so far, in the order of their \<open>runtest_protocol_complete\<close> events,
  followed by the indices still pending, are exactly the indices appended, in the order
  they were appended; one index is pending (none when nothing was appended), and every
  host call made so far had a next item, that is, was made with at least two entries
  queued. When a \<open>shutdown\<close> command follows, the loop returns with \<open>torun\<close> empty and
  the indices drained are exactly the indices appended, each once and in order.
\<close>

theorem queued_indices_drain_in_order:
  assumes "reports_own_item h" "list_all (run_command (items w)) cmds"
  shows "\<exists>w1 w2 pending.
      pytest_runtestloop h w (map to_received cmds) = Inr (Blocked, w1, pending)
      \<and> completed (new_events w w1) @ pending = concat (map (queued_by (items w)) cmds)
      \<and> length pending = min 1 (length (concat (map (queued_by (items w)) cmds)))
      \<and> list_all (\<lambda>c. snd c \<noteq> None) (new_calls w w1)
      \<and> pytest_runtestloop h w (map to_received cmds @ [Command ''shutdown'' kwargs])
          = Inr (Returned True, w2, [])
      \<and> completed (new_events w w2) = concat (map (queued_by (items w)) cmds)"
proof -
  let ?Q = "concat (map (queued_by (items w)) cmds)"
  from runtestloop_from_run_commands[OF assms(1) assms(2), of "[]"] obtain w1 pending where
    a: "runtestloop_from h w [] (map to_received cmds) = Inr (Blocked, w1, pending)"
       "extends w w1" "completed (new_events w w1) @ pending = ?Q"
       "length pending = min 1 (length ?Q)"
       "list_all (valid_index (items w)) pending"
       "list_all (\<lambda>c. snd c \<noteq> None) (new_calls w w1)"
    by auto
  from a(2) have it: "items w1 = items w" by (simp add: extends_def)
  have e: "enqueue w1 pending ''shutdown'' kwargs = Inr pending" by (simp add: enqueue_def)
  from a(5) it have "list_all (valid_index (items w1)) pending" by simp
  from process_command_ok[OF assms(1) e this] obtain brk w2 t2 where
    p: "process_command h w1 pending ''shutdown'' kwargs = Inr (brk, w2, t2)"
    by (metis prod_cases3)
  from process_command_Inr[OF p] e have
    s: "extends w1 w2" "brk = True" "t2 = []" "completed (new_events w1 w2) = pending"
    by auto
  note tr = extends_trans[OF a(2) s(1)]
  have "pytest_runtestloop h w (map to_received cmds @ [Command ''shutdown'' kwargs])
          = Inr (Returned True, w2, [])"
    using a(1) p s(2,3) by (simp add: pytest_runtestloop_def runtestloop_from_append)
  moreover have "completed (new_events w w2) = ?Q"
    using tr(2) s(4) a(3) by (simp add: completed_append)
  ultimately show ?thesis using a(1,3,4,6) by (auto simp: pytest_runtestloop_def)
qed

theorem queued_indices_drain_in_order_witness:
  "\<exists>w1 w2 pending.
      pytest_runtestloop example_host example_worker
          [Command ''runtests'' [(''indices'', [2, 0])], Command ''runtests_all'' []]
        = Inr (Blocked, w1, pending)
      \<and> completed (new_events example_worker w1) @ pending = [2, 0, 0, 1, 2]
      \<and> length pending = 1
      \<and> pytest_runtestloop example_host example_worker
          [Command ''runtests'' [(''indices'', [2, 0])], Command ''runtests_all'' [],
           Command ''shutdown'' []]
        = Inr (Returned True, w2, [])
      \<and> completed (new_events example_worker w2) = [2, 0, 0, 1, 2]"
proof -
  let ?cmds = "[(''runtests'', [(''indices'', [2, 0])]), (''runtests_all'', [])]"
  have c: "list_all (run_command (items example_worker)) ?cmds"
    by (simp add: run_command_def example_worker_valid)
  have q: "concat (map (queued_by (items example_worker)) ?cmds) = [2, 0, 0, 1, 2]"
    by (simp add: queued_by_def example_worker_def upt_rec)
  from queued_indices_drain_in_order[OF example_host_reports_own_item c, of "[]"]
  show ?thesis unfolding q by (simp add: to_received_def) blast
qed

text \<open>
  Without a \<open>shutdown\<close> the last index appended is not drained: here the channel closes
  after \<open>runtests\<close> with the index 0, the loop returns, and index 0 is still in \<open>torun\<close>
  with no \<open>runtest_protocol_complete\<close> event sent and no host call made.
\<close>

theorem queued_index_left_at_end_of_stream:
  "pytest_runtestloop example_host example_worker
      [Command ''runtests'' [(''indices'', [0])], EOFError]
     = Inr (Returned True, example_worker, [0])
   \<and> queued_by (items example_worker) (''runtests'', [(''indices'', [0])]) = [0]
   \<and> completed (sent example_worker) = []
   \<and> hostcalls example_worker = []"
  by (simp add: pytest_runtestloop_def process_command_def enqueue_def run_while_short
        queued_by_def example_worker_def)

end
